theory Spec2Isabelle
  imports Main "HOL-Library.Sublist"
begin

section \<open>Messages and conversations\<close>

text \<open>
  A conversation is a Python list of message dictionaries in the chat-completions format.
  Only the keys the code reads are modelled: \<open>role\<close>, \<open>content\<close> and \<open>tool_calls\<close>.
  A key that is absent (or maps to \<open>None\<close>) is \<open>None\<close> here; an absent \<open>tool_calls\<close> key is the
  empty list, which Python's truth test treats alike.
\<close>

record func =
  fn_name :: "string option"
  fn_arguments :: "string option"

record tool_call =
  tc_function :: "func option"

record message =
  role :: string
  content :: "string option"
  tool_calls :: "tool_call list"

type_synonym conversation = "message list"

text \<open>Python's \<open>d.get(key, "")\<close> on an optional string entry.\<close>

definition get_str :: "string option \<Rightarrow> string" where
  "get_str v = (case v of None \<Rightarrow> [] | Some s \<Rightarrow> s)"

text \<open>
  Truth test of \<open>tool_call.get("function")\<close>: an absent entry and the empty dictionary are
  both false.
\<close>

definition function_truthy :: "func option \<Rightarrow> bool" where
  "function_truthy f =
     (case f of None \<Rightarrow> False
      | Some d \<Rightarrow> \<not> (fn_name d = None \<and> fn_arguments d = None))"

text \<open>Truth test of \<open>message.get("content")\<close>: absent and the empty string are both false.\<close>

definition content_truthy :: "string option \<Rightarrow> bool" where
  "content_truthy c = (case c of None \<Rightarrow> False | Some s \<Rightarrow> s \<noteq> [])"

section \<open>ContextWindowManager\<close>

text \<open>
  The tokenizer comes from the \<open>tiktoken\<close> library; the manager stores it in \<open>self.encoding\<close>.
  It is a field of the record, so every statement below holds for whatever tokenizer the
  constructor has picked.
\<close>

record context_window_manager =
  max_tokens :: int
  system_prompt_reserve :: int
  response_reserve :: int
  available_tokens :: int
  encoding :: "string \<Rightarrow> nat list"

definition init_manager ::
  "int \<Rightarrow> int \<Rightarrow> int \<Rightarrow> (string \<Rightarrow> nat list) \<Rightarrow> context_window_manager" where
  "init_manager mx sys resp enc =
     \<lparr> max_tokens = mx, system_prompt_reserve = sys, response_reserve = resp,
       available_tokens = mx - sys - resp, encoding = enc \<rparr>"

subsection \<open>count_tokens\<close>

text \<open>The inner loop over \<open>message["tool_calls"]\<close>, with the running total passed along.\<close>

fun count_tool_calls :: "(string \<Rightarrow> nat list) \<Rightarrow> int \<Rightarrow> tool_call list \<Rightarrow> int" where
  "count_tool_calls enc total_tokens [] = total_tokens"
| "count_tool_calls enc total_tokens (tc # tcs) =
     count_tool_calls enc
       (if function_truthy (tc_function tc)
        then total_tokens + int (length (enc (get_str (fn_name (the (tc_function tc)))
                                        @ get_str (fn_arguments (the (tc_function tc))))))
        else total_tokens)
       tcs"

text \<open>One pass of the outer loop body: role overhead, content, tool calls.\<close>

definition count_message :: "(string \<Rightarrow> nat list) \<Rightarrow> int \<Rightarrow> message \<Rightarrow> int" where
  "count_message enc total_tokens m =
     (let t1 = total_tokens + 4;
          t2 = (if content_truthy (content m) then t1 + int (length (enc (the (content m))))
                else t1)
      in if tool_calls m \<noteq> [] then count_tool_calls enc t2 (tool_calls m) else t2)"

fun count_loop :: "(string \<Rightarrow> nat list) \<Rightarrow> int \<Rightarrow> conversation \<Rightarrow> int" where
  "count_loop enc total_tokens [] = total_tokens"
| "count_loop enc total_tokens (m # ms) = count_loop enc (count_message enc total_tokens m) ms"

definition count_tokens :: "context_window_manager \<Rightarrow> conversation \<Rightarrow> int" where
  "count_tokens mgr messages = count_loop (encoding mgr) 0 messages"

subsection \<open>smart_truncate\<close>

text \<open>Python's \<open>xs[-k:]\<close> for a positive \<open>k\<close>: the whole list when it is shorter.\<close>

definition py_last :: "nat \<Rightarrow> 'a list \<Rightarrow> 'a list" where
  "py_last k xs = drop (length xs - k) xs"

text \<open>Python's \<open>str\<close> of a non-negative integer, as used by the f-string of the summary.\<close>

definition digit_char :: "nat \<Rightarrow> char" where
  "digit_char d = ''0123456789'' ! d"

fun str_nat :: "nat \<Rightarrow> string" where
  "str_nat n = (if n < 10 then [digit_char n] else str_nat (n div 10) @ [digit_char (n mod 10)])"

declare str_nat.simps [simp del]

definition summary_message :: "nat \<Rightarrow> message" where
  "summary_message removed_count =
     \<lparr> role = ''system'',
       content = Some (''[Context optimized: '' @ str_nat removed_count
                        @ '' intermediate messages removed]''),
       tool_calls = [] \<rparr>"

definition tool_names :: "message \<Rightarrow> string list" where
  "tool_names msg =
     map (\<lambda>tc. case tc_function tc of None \<Rightarrow> [] | Some d \<Rightarrow> get_str (fn_name d))
         (tool_calls msg)"

definition important_tools :: "string list" where
  "important_tools = [''finalanswertool'', ''createreporttool'', ''websearchtool'']"

definition has_important_tool :: "message \<Rightarrow> bool" where
  "has_important_tool msg = list_ex (\<lambda>name. List.member important_tools name) (tool_names msg)"

text \<open>
  The categorising loop \<open>for idx, msg in enumerate(conversation[1:], start=1)\<close>. The state is
  the pair (important_messages, recent_messages); \<open>append\<close> adds at the end.
\<close>

fun categorize ::
  "bool \<Rightarrow> int \<Rightarrow> int \<Rightarrow> message list \<times> message list \<Rightarrow> message list
     \<Rightarrow> message list \<times> message list" where
  "categorize preserve thr idx (imp, rec) [] = (imp, rec)"
| "categorize preserve thr idx (imp, rec) (msg # rest) =
     categorize preserve thr (idx + 1)
       (if thr \<le> idx then (imp, rec @ [msg])
        else if preserve \<and> role msg = ''tool'' then (imp @ [msg], rec)
        else if tool_calls msg \<noteq> [] then
          (if has_important_tool msg then (imp @ [msg], rec) else (imp, rec))
        else (imp, rec))
       rest"

definition initial_task :: "conversation \<Rightarrow> conversation" where
  "initial_task conversation = (case conversation of [] \<Rightarrow> [] | c0 # _ \<Rightarrow> [c0])"

definition recent_threshold :: "conversation \<Rightarrow> int" where
  "recent_threshold conversation = max 1 (int (length conversation) - 8)"

definition important_messages :: "conversation \<Rightarrow> bool \<Rightarrow> message list" where
  "important_messages conversation preserve =
     fst (categorize preserve (recent_threshold conversation) 1 ([], []) (drop 1 conversation))"

definition recent_messages :: "conversation \<Rightarrow> bool \<Rightarrow> message list" where
  "recent_messages conversation preserve =
     snd (categorize preserve (recent_threshold conversation) 1 ([], []) (drop 1 conversation))"

definition smart_truncate ::
  "context_window_manager \<Rightarrow> conversation \<Rightarrow> bool \<Rightarrow> conversation" where
  "smart_truncate mgr conversation preserve_tool_results =
     (let current_tokens = count_tokens mgr conversation
      in if current_tokens \<le> available_tokens mgr then conversation
         else
           let imp = important_messages conversation preserve_tool_results;
               rec = recent_messages conversation preserve_tool_results;
               truncated = initial_task conversation @ imp @ rec
           in if available_tokens mgr < count_tokens mgr truncated
              then initial_task conversation @ [summary_message (length imp)] @ py_last 6 rec
              else truncated)"

text \<open>The test the categorising loop applies to a message before the recent tail.\<close>

definition is_important :: "bool \<Rightarrow> message \<Rightarrow> bool" where
  "is_important preserve msg =
     ((preserve \<and> role msg = ''tool'') \<or> (tool_calls msg \<noteq> [] \<and> has_important_tool msg))"

text \<open>
  A tokenizer for concrete evaluations: one token per character. The theorems below do not
  depend on it.
\<close>

definition char_encoding :: "string \<Rightarrow> nat list" where
  "char_encoding s = map of_char s"

definition user_msg :: "string \<Rightarrow> message" where
  "user_msg s = \<lparr> role = ''user'', content = Some s, tool_calls = [] \<rparr>"

text \<open>The cost of a single message, and the total as a sum of per-message costs.\<close>

definition msg_cost :: "(string \<Rightarrow> nat list) \<Rightarrow> message \<Rightarrow> int" where
  "msg_cost enc m = count_message enc 0 m"

subsection \<open>Concrete data for evaluation\<close>

definition mgr600 :: context_window_manager where
  "mgr600 = init_manager 1000 200 200 char_encoding"

definition mgr46 :: context_window_manager where
  "mgr46 = init_manager 70 12 12 char_encoding"

definition conv10 :: conversation where
  "conv10 = [user_msg ''a'', user_msg ''b'', user_msg ''c'', user_msg ''d'', user_msg ''e'',
             user_msg ''f'', user_msg ''g'', user_msg ''h'', user_msg ''i'', user_msg ''j'']"

definition conv_long :: conversation where
  "conv_long = [user_msg ''Task: compare plans'', user_msg ''the first long answer'',
                user_msg ''the second long answer'']"

definition conv3 :: conversation where
  "conv3 = [user_msg ''Task: survey'', user_msg ''more'', user_msg ''thanks'']"


section \<open>The lists as objects in a store\<close>

text \<open>
  Python lists are objects: \<open>self.conversation\<close> is a reference, and \<open>smart_truncate\<close> may return
  the very list it was given. To speak about what a call changes, lists live in a store, a
  list of list objects addressed by position; creating a list appends a cell, \<open>append\<close> and
  \<open>extend\<close> update a cell in place. The message dictionaries are not written to by any of the
  functions below, so they stay values.
\<close>

type_synonym addr = nat
type_synonym store = "message list list"

definition new_list :: "store \<Rightarrow> message list \<Rightarrow> store \<times> addr" where
  "new_list s xs = (s @ [xs], length s)"

definition list_append :: "store \<Rightarrow> addr \<Rightarrow> message \<Rightarrow> store" where
  "list_append s a m = s[a := s ! a @ [m]]"

definition list_extend :: "store \<Rightarrow> addr \<Rightarrow> addr \<Rightarrow> store" where
  "list_extend s a b = s[a := s ! a @ s ! b]"

text \<open>The categorising loop, appending to the two list objects in place.\<close>

fun categorize_st ::
  "bool \<Rightarrow> int \<Rightarrow> int \<Rightarrow> addr \<Rightarrow> addr \<Rightarrow> store \<Rightarrow> message list \<Rightarrow> store" where
  "categorize_st preserve thr idx imp_ref rec_ref s [] = s"
| "categorize_st preserve thr idx imp_ref rec_ref s (msg # rest) =
     categorize_st preserve thr (idx + 1) imp_ref rec_ref
       (if thr \<le> idx then list_append s rec_ref msg
        else if preserve \<and> role msg = ''tool'' then list_append s imp_ref msg
        else if tool_calls msg \<noteq> [] then
          (if has_important_tool msg then list_append s imp_ref msg else s)
        else s)
       rest"

text \<open>
  \<open>smart_truncate\<close> statement by statement. Every list display, slice and \<open>+\<close> creates a new
  list object; the fast path returns the reference it was given.
\<close>

definition smart_truncate_st ::
  "context_window_manager \<Rightarrow> store \<Rightarrow> addr \<Rightarrow> bool \<Rightarrow> store \<times> addr" where
  "smart_truncate_st mgr s conv_ref preserve_tool_results =
     (let current_tokens = count_tokens mgr (s ! conv_ref)
      in if current_tokens \<le> available_tokens mgr then (s, conv_ref)
         else
           let (s1, initial_ref) = new_list s (initial_task (s ! conv_ref));
               (s2, imp_ref) = new_list s1 [];
               (s3, rec_ref) = new_list s2 [];
               (s4, slice_ref) = new_list s3 (drop 1 (s3 ! conv_ref));
               s5 = categorize_st preserve_tool_results (recent_threshold (s4 ! conv_ref)) 1
                      imp_ref rec_ref s4 (s4 ! slice_ref);
               (s6, tmp_ref) = new_list s5 (s5 ! initial_ref @ s5 ! imp_ref);
               (s7, truncated_ref) = new_list s6 (s6 ! tmp_ref @ s6 ! rec_ref)
           in if available_tokens mgr < count_tokens mgr (s7 ! truncated_ref)
              then
                let removed_count = length (s7 ! imp_ref);
                    (s8, summary_ref) = new_list s7 [summary_message removed_count];
                    (s9, tmp2_ref) = new_list s8 (s8 ! initial_ref @ s8 ! summary_ref);
                    (s10, last_ref) = new_list s9 (py_last 6 (s9 ! rec_ref));
                    (s11, truncated2_ref) = new_list s10 (s10 ! tmp2_ref @ s10 ! last_ref)
                in (s11, truncated2_ref)
              else (s7, truncated_ref))"

text \<open>
  \<open>_prepare_context\<close>. The system prompt comes from the prompt loader and is a parameter; the
  two log lines do not touch the store. \<open>self\<close> is returned to show that no attribute is
  assigned.
\<close>

record agent_refs =
  conversation_ref :: addr

definition system_msg :: "string \<Rightarrow> message" where
  "system_msg s = \<lparr> role = ''system'', content = Some s, tool_calls = [] \<rparr>"

definition prepare_context ::
  "context_window_manager \<Rightarrow> string \<Rightarrow> store \<Rightarrow> agent_refs \<Rightarrow> store \<times> agent_refs \<times> addr" where
  "prepare_context mgr system_prompt_content s self =
     (let (s1, truncated_ref) = smart_truncate_st mgr s (conversation_ref self) True;
          (s2, result) = new_list s1 [system_msg system_prompt_content];
          s3 = list_extend s2 result truncated_ref
      in (s3, self, result))"

text \<open>The store after the categorising loop of an over-budget call.\<close>

definition after_loop :: "store \<Rightarrow> addr \<Rightarrow> bool \<Rightarrow> store" where
  "after_loop s c p =
     categorize_st p (recent_threshold (s ! c)) 1 (length s + 1) (length s + 2)
       (s @ [initial_task (s ! c), [], [], drop 1 (s ! c)]) (drop 1 (s ! c))"

section \<open>ReadFileTool\<close>

text \<open>
  Exceptions as values. Everything the file operations raise is an \<open>Exception\<close>:
  \<open>PermissionError\<close> is kept apart because the code catches it first; any other exception
  carries the text that \<open>str\<close> gives for it. Signals of the interpreter that are not
  \<open>Exception\<close>s (keyboard interrupt, exit) are not operations of the program and are left out.
\<close>

datatype py_exception = PermissionError | OtherException string

text \<open>
  What the operating system answers for a path: \<open>os.path.exists\<close>, \<open>os.path.isfile\<close>, and
  opening the file for reading followed by \<open>read\<close>. Each call may return or raise.
\<close>

record os_view =
  path_exists :: "string \<Rightarrow> py_exception + bool"
  path_isfile :: "string \<Rightarrow> py_exception + bool"
  open_read :: "string \<Rightarrow> py_exception + string"

text \<open>The body of the \<open>try\<close> block of \<open>ReadFileTool.__call__\<close>.\<close>

definition read_file_try :: "os_view \<Rightarrow> string \<Rightarrow> py_exception + string" where
  "read_file_try os file_path =
     (case path_exists os file_path of
        Inl e \<Rightarrow> Inl e
      | Inr ex \<Rightarrow>
          if \<not> ex then Inr (''Error: File '' @ file_path @ '' does not exist'')
          else (case path_isfile os file_path of
                  Inl e \<Rightarrow> Inl e
                | Inr isf \<Rightarrow>
                    if \<not> isf then Inr (''Error: '' @ file_path @ '' is not a file'')
                    else open_read os file_path))"

text \<open>
  \<open>ReadFileTool.__call__\<close>: the \<open>try\<close> block with its two handlers. The result type keeps a
  place for an exception that would leave the method.
\<close>

definition read_file_call :: "os_view \<Rightarrow> string \<Rightarrow> py_exception + string" where
  "read_file_call os file_path =
     (case read_file_try os file_path of
        Inr s \<Rightarrow> Inr s
      | Inl PermissionError \<Rightarrow> Inr (''Error: Permission denied accessing '' @ file_path)
      | Inl (OtherException e) \<Rightarrow> Inr (''Error: '' @ e))"

definition demo_os :: os_view where
  "demo_os =
     \<lparr> path_exists = (\<lambda>p. Inr (p = ''notes.txt'' \<or> p = ''secret.txt'' \<or> p = ''data'')),
       path_isfile = (\<lambda>p. Inr (p = ''notes.txt'' \<or> p = ''secret.txt'')),
       open_read = (\<lambda>p. if p = ''notes.txt'' then Inr ''remember the milk''
                          else if p = ''secret.txt'' then Inl PermissionError
                          else Inl (OtherException ''[Errno 2] No such file or directory'')) \<rparr>"

section \<open>The indefinite-mode agent\<close>

text \<open>
  Modelled from the spec: \<open>AgentStatesEnum\<close> and its \<open>FINISH_STATES\<close> are declared in
  \<open>core/models.py\<close>, which is not among the source files. The states are those of the spec's
  state machine (section 4.3); the finish states are its terminal states.
\<close>

datatype AgentStatesEnum =
  CREATED | RESEARCHING | WAITING_FOR_CLARIFICATION | COMPLETED | FAILED

definition FINISH_STATES :: "AgentStatesEnum list" where
  "FINISH_STATES = [COMPLETED, FAILED]"

subsection \<open>Strings\<close>

text \<open>
  Strings are byte strings (UTF-8). \<open>str.lower\<close> and \<open>str.strip\<close> are methods of Python's
  built-in string type, not code of this repository, and what they do reaches over all of
  Unicode. They are parameters: the two fields of the record below stand for Python's own
  methods, and every statement about \<open>continue_conversation\<close> holds for whatever they are.
\<close>

record str_methods =
  str_lower :: "string \<Rightarrow> string"
  str_strip :: "string \<Rightarrow> string"

text \<open>
  The list of stop phrases of \<open>continue_conversation\<close>; the three Russian words are given by
  their UTF-8 bytes.
\<close>

definition stop_phrases :: "string list" where
  "stop_phrases =
     [''stop'', ''finish'', ''end'',
      [CHR 0xD0, CHR 0xB7, CHR 0xD0, CHR 0xB0, CHR 0xD0, CHR 0xB2, CHR 0xD0, CHR 0xB5, CHR 0xD1,
       CHR 0x80, CHR 0xD1, CHR 0x88, CHR 0xD0, CHR 0xB8, CHR 0xD1, CHR 0x82, CHR 0xD1, CHR 0x8C],
      [CHR 0xD1, CHR 0x81, CHR 0xD1, CHR 0x82, CHR 0xD0, CHR 0xBE, CHR 0xD0, CHR 0xBF],
      [CHR 0xD0, CHR 0xB7, CHR 0xD0, CHR 0xB0, CHR 0xD0, CHR 0xBA, CHR 0xD0, CHR 0xBE, CHR 0xD0,
       CHR 0xBD, CHR 0xD1, CHR 0x87, CHR 0xD0, CHR 0xB8, CHR 0xD1, CHR 0x82, CHR 0xD1, CHR 0x8C]]"

subsection \<open>The agent\<close>

text \<open>
  The attributes of the agent that the modelled methods read or write. \<open>state\<close>, \<open>iteration\<close>,
  \<open>current_step_reasoning\<close> and \<open>clarification_received\<close> (the flag of an \<open>asyncio.Event\<close>) belong
  to \<open>self._context\<close>. \<open>stream_finished\<close> records that \<open>streaming_generator.finish()\<close> has been
  called, \<open>log_saved\<close> that \<open>_save_agent_log()\<close> has. The type of a reasoning step is a
  parameter.
\<close>

record 'r agent =
  task :: string
  state :: AgentStatesEnum
  iteration :: int
  current_step_reasoning :: "'r option"
  clarification_received :: bool
  conversation :: "message list"
  is_infinite :: bool
  user_requested_stop :: bool
  stream_finished :: bool
  log_saved :: bool

definition continue_conversation :: "str_methods \<Rightarrow> 'r agent \<Rightarrow> string \<Rightarrow> 'r agent" where
  "continue_conversation py self user_message =
     (if List.member stop_phrases (str_strip py (str_lower py user_message))
      then self\<lparr> user_requested_stop := True, state := COMPLETED,
                 conversation := conversation self
                   @ [user_msg ''User requested to stop the conversation.''] \<rparr>
      else
        let self1 = self\<lparr> conversation := conversation self @ [user_msg user_message] \<rparr>
        in if List.member FINISH_STATES (state self1) then self1\<lparr> state := RESEARCHING \<rparr>
           else self1)"

subsection \<open>The continuation endpoint\<close>

text \<open>
  The part of the request that \<open>create_chat_completion\<close> reads, and the branch of it taken when
  \<open>request.model\<close> names a stored \<open>SGRInfiniteAutoToolCallingAgent\<close>. An HTTP error is an
  exception carrying its detail text. The streaming response that is returned reads the
  agent's stream and changes nothing.
\<close>

record chat_message =
  cm_role :: string
  cm_content :: string

record chat_completion_request =
  stream :: bool
  messages :: "chat_message list"

definition extract_user_content_from_messages :: "chat_message list \<Rightarrow> py_exception + string" where
  "extract_user_content_from_messages msgs =
     (case find (\<lambda>m. cm_role m = ''user'') (rev msgs) of
        None \<Rightarrow> Inl (OtherException ''User message not found in messages'')
      | Some m \<Rightarrow> Inr (cm_content m))"

definition create_chat_completion_infinite ::
  "str_methods \<Rightarrow> chat_completion_request \<Rightarrow> 'r agent \<Rightarrow> py_exception + 'r agent" where
  "create_chat_completion_infinite py request agent =
     (if \<not> stream request
      then Inl (OtherException (''Only streaming responses are supported. Set 'stream=true'' @ [CHR 0x27]))
      else case extract_user_content_from_messages (messages request) of
             Inl e \<Rightarrow> Inl e
           | Inr user_message \<Rightarrow>
               let agent1 = continue_conversation py agent user_message
               in Inr (if \<not> user_requested_stop agent1
                       then agent1\<lparr> clarification_received := True \<rparr>
                       else agent1))"

subsection \<open>The execution loop\<close>

text \<open>
  Modelled from the spec: the tool classes are declared in \<open>core/tools\<close>, which is not among
  the source files. The loop tells apart the clarification tool, the answer-producing tool
  (which carries the status it asks for) and every other tool, named by its class.
\<close>

datatype tool = ClarificationTool | FinalAnswerTool AgentStatesEnum | OtherTool string

text \<open>
  The methods inherited from \<open>SGRToolCallingResearchAgent\<close> are parameters: each takes the agent
  and gives back the agent as it left it together with its result or the exception it
  raised. They are coroutines, so what the agent looks like afterwards includes whatever a
  request handler did to it in the meantime.
\<close>

record 'r phases =
  reasoning_phase :: "'r agent \<Rightarrow> 'r agent \<times> (py_exception + 'r)"
  super_select_action_phase :: "'r agent \<Rightarrow> 'r \<Rightarrow> 'r agent \<times> (py_exception + tool)"
  action_phase :: "'r agent \<Rightarrow> tool \<Rightarrow> 'r agent \<times> (py_exception + unit)"

definition select_action_phase ::
  "'r phases \<Rightarrow> 'r agent \<Rightarrow> 'r \<Rightarrow> 'r agent \<times> (py_exception + tool)" where
  "select_action_phase ph self reasoning =
     (case super_select_action_phase ph self reasoning of
        (self1, Inl e) \<Rightarrow> (self1, Inl e)
      | (self1, Inr tool) \<Rightarrow>
          (case tool of
             FinalAnswerTool status \<Rightarrow>
               if is_infinite self1 \<and> \<not> user_requested_stop self1
               then (if status = COMPLETED then self1\<lparr> state := RESEARCHING \<rparr> else self1,
                     Inr tool)
               else (self1, Inr tool)
           | _ \<Rightarrow> (self1, Inr tool)))"

text \<open>
  Where the coroutine \<open>execute\<close> stands between two steps: at the test of the \<open>while\<close> loop,
  suspended in \<open>clarification_received.wait()\<close>, or past its \<open>finally\<close> block.
\<close>

datatype loop_point = LoopTest | Waiting | Done

definition is_final_answer :: "tool \<Rightarrow> bool" where
  "is_final_answer tool = (case tool of FinalAnswerTool _ \<Rightarrow> True | _ \<Rightarrow> False)"

text \<open>
  One pass through the body of the \<open>while\<close> loop, up to the next suspension on the event or
  the end of the body. The selected tool is returned with the outcome so that statements can
  name it.
\<close>

definition loop_body ::
  "'r phases \<Rightarrow> 'r agent \<Rightarrow> 'r agent \<times> (py_exception + loop_point \<times> tool)" where
  "loop_body ph self =
     (let self0 = self\<lparr> iteration := iteration self + 1 \<rparr>
      in case reasoning_phase ph self0 of
           (self1, Inl e) \<Rightarrow> (self1, Inl e)
         | (self1, Inr reasoning) \<Rightarrow>
             (case select_action_phase ph (self1\<lparr> current_step_reasoning := Some reasoning \<rparr>)
                     reasoning of
                (self2, Inl e) \<Rightarrow> (self2, Inl e)
              | (self2, Inr action_tool) \<Rightarrow>
                  (case action_phase ph self2 action_tool of
                     (self3, Inl e) \<Rightarrow> (self3, Inl e)
                   | (self3, Inr _) \<Rightarrow>
                       if action_tool = ClarificationTool
                       then (self3\<lparr> state := WAITING_FOR_CLARIFICATION,
                                      clarification_received := False \<rparr>,
                             Inr (Waiting, action_tool))
                       else if is_final_answer action_tool \<and> \<not> user_requested_stop self3
                       then (self3\<lparr> state := WAITING_FOR_CLARIFICATION,
                                      clarification_received := False \<rparr>,
                             Inr (Waiting, action_tool))
                       else (self3, Inr (LoopTest, action_tool)))))"

definition finally_block :: "'r agent \<Rightarrow> 'r agent" where
  "finally_block self = self\<lparr> stream_finished := True, log_saved := True \<rparr>"

definition execute_start :: "'r agent \<Rightarrow> 'r agent" where
  "execute_start self =
     self\<lparr> conversation := conversation self
       @ [user_msg (''Task: '' @ task self @ [CHR 0x0A, CHR 0x0A]
            @ ''Note: This is an infinite conversation mode. ''
            @ ''I will continue helping until you explicitly say 'stop' or 'finish'.'')] \<rparr>"

text \<open>
  One step of \<open>execute\<close>. \<open>wait()\<close> returns only when the flag is set; an exception in the body
  is caught at the loop boundary, which sets \<open>FAILED\<close>; the \<open>finally\<close> block runs once the loop
  is left.
\<close>

definition execute_step :: "'r phases \<Rightarrow> loop_point \<times> 'r agent \<Rightarrow> loop_point \<times> 'r agent" where
  "execute_step ph cfg =
     (case cfg of
        (LoopTest, self) \<Rightarrow>
          if user_requested_stop self then (Done, finally_block self)
          else (case loop_body ph self of
                  (self1, Inl e) \<Rightarrow> (Done, finally_block (self1\<lparr> state := FAILED \<rparr>))
                | (self1, Inr (pt, _)) \<Rightarrow> (pt, self1))
      | (Waiting, self) \<Rightarrow>
          if clarification_received self then (LoopTest, self) else (Waiting, self)
      | (Done, self) \<Rightarrow> (Done, self))"


subsection \<open>Concrete agents for evaluation\<close>

text \<open>
  String methods for concrete evaluations: what \<open>str.lower\<close> and \<open>str.strip\<close> do on ASCII text.
  The letters A to Z are lowered, and the ASCII characters for which \<open>str.isspace\<close> holds are
  stripped from both ends. The theorems below do not depend on this instance.
\<close>

definition upper_letters :: string where
  "upper_letters = ''ABCDEFGHIJKLMNOPQRSTUVWXYZ''"

definition lower_letters :: string where
  "lower_letters = ''abcdefghijklmnopqrstuvwxyz''"

definition ascii_lower_char :: "char \<Rightarrow> char" where
  "ascii_lower_char c =
     (case map_of (zip upper_letters lower_letters) c of None \<Rightarrow> c | Some d \<Rightarrow> d)"

definition ascii_lower :: "string \<Rightarrow> string" where
  "ascii_lower s = map ascii_lower_char s"

definition ascii_whitespace :: "char list" where
  "ascii_whitespace = [CHR 0x09, CHR 0x0A, CHR 0x0B, CHR 0x0C, CHR 0x0D,
                       CHR 0x1C, CHR 0x1D, CHR 0x1E, CHR 0x1F, CHR '' '']"

definition is_ascii_space :: "char \<Rightarrow> bool" where
  "is_ascii_space c = List.member ascii_whitespace c"

definition ascii_strip :: "string \<Rightarrow> string" where
  "ascii_strip s = rev (dropWhile is_ascii_space (rev (dropWhile is_ascii_space s)))"

definition ascii_methods :: str_methods where
  "ascii_methods = \<lparr> str_lower = ascii_lower, str_strip = ascii_strip \<rparr>"

definition paused_agent :: "string agent" where
  "paused_agent =
     \<lparr> task = ''survey'', state = WAITING_FOR_CLARIFICATION, iteration = 1,
       current_step_reasoning = None, clarification_received = False,
       conversation = [user_msg ''Task: survey''], is_infinite = True,
       user_requested_stop = False, stream_finished = False, log_saved = False \<rparr>"

definition running_agent :: "string agent" where
  "running_agent = paused_agent\<lparr> state := RESEARCHING, clarification_received := True \<rparr>"

definition stop_request :: chat_completion_request where
  "stop_request = \<lparr> stream = True, messages = [\<lparr> cm_role = ''user'', cm_content = ''stop'' \<rparr>] \<rparr>"

definition demo_phases :: "string phases" where
  "demo_phases =
     \<lparr> reasoning_phase = (\<lambda>self. (self, Inr ''the answer is ready'')),
       super_select_action_phase = (\<lambda>self r. (self, Inr (FinalAnswerTool COMPLETED))),
       action_phase = (\<lambda>self tool.
          (case tool of FinalAnswerTool status \<Rightarrow> self\<lparr> state := status \<rparr> | _ \<Rightarrow> self,
           Inr ())) \<rparr>"

section \<open>Facts about count_tokens\<close>

lemma count_tool_calls_ge: "total_tokens \<le> count_tool_calls enc total_tokens tcs"
proof (induction tcs arbitrary: total_tokens)
  case Nil
  show ?case by simp
next
  case (Cons tc tcs)
  have "total_tokens \<le> (if function_truthy (tc_function tc)
        then total_tokens + int (length (enc (get_str (fn_name (the (tc_function tc)))
                                        @ get_str (fn_arguments (the (tc_function tc))))))
        else total_tokens)" by simp
  also have "\<dots> \<le> count_tool_calls enc \<dots> tcs" by (rule Cons.IH)
  finally show ?case by simp
qed

lemma count_tool_calls_shift:
  "count_tool_calls enc (a + b) tcs = a + count_tool_calls enc b tcs"
  by (induction tcs arbitrary: b) (simp_all add: add.assoc)

lemma count_message_shift: "count_message enc (a + b) m = a + count_message enc b m"
  by (simp add: count_message_def Let_def count_tool_calls_shift add.assoc)

lemma count_message_ge4: "total_tokens + 4 \<le> count_message enc total_tokens m"
proof -
  have "total_tokens + 4 \<le> (if content_truthy (content m)
      then total_tokens + 4 + int (length (enc (the (content m)))) else total_tokens + 4)"
    by simp
  also have "\<dots> \<le> count_message enc total_tokens m"
    by (simp add: count_message_def Let_def count_tool_calls_ge)
  finally show ?thesis .
qed

lemma msg_cost_ge4: "4 \<le> msg_cost enc m"
  using count_message_ge4 [of 0 enc m] by (simp add: msg_cost_def)

lemma count_loop_sum: "count_loop enc total_tokens ms = total_tokens + sum_list (map (msg_cost enc) ms)"
proof (induction ms arbitrary: total_tokens)
  case Nil
  show ?case by simp
next
  case (Cons m ms)
  have "count_message enc total_tokens m = total_tokens + msg_cost enc m"
    using count_message_shift [of enc total_tokens 0 m] by (simp add: msg_cost_def)
  then show ?case by (simp add: Cons.IH add.assoc)
qed

lemma count_tokens_sum: "count_tokens mgr ms = sum_list (map (msg_cost (encoding mgr)) ms)"
  by (simp add: count_tokens_def count_loop_sum)

lemma count_tokens_append:
  "count_tokens mgr (xs @ ys) = count_tokens mgr xs + count_tokens mgr ys"
  by (simp add: count_tokens_sum)

lemma count_tokens_nonneg: "0 \<le> count_tokens mgr ms"
proof -
  have "0 \<le> sum_list (map (msg_cost (encoding mgr)) ms)"
  proof (induction ms)
    case Nil
    show ?case by simp
  next
    case (Cons m ms)
    from msg_cost_ge4 [of "encoding mgr" m] Cons.IH show ?case by simp
  qed
  then show ?thesis by (simp add: count_tokens_sum)
qed


section \<open>The structure of the categorising loop\<close>

lemma categorize_step:
  "categorize p thr idx (imp, rec) (x # xs) =
     categorize p thr (idx + 1)
       (if thr \<le> idx then (imp, rec @ [x])
        else if is_important p x then (imp @ [x], rec) else (imp, rec)) xs"
  by (auto simp add: is_important_def)

lemma categorize_eq:
  "categorize p thr idx (imp, rec) xs =
     (imp @ filter (is_important p) (take (nat (thr - idx)) xs), rec @ drop (nat (thr - idx)) xs)"
proof (induction xs arbitrary: idx imp rec)
  case Nil
  show ?case by simp
next
  case (Cons x xs)
  show ?case
  proof (cases "thr \<le> idx")
    case True
    then have z: "nat (thr - idx) = 0" "nat (thr - (idx + 1)) = 0" by simp_all
    have "categorize p thr idx (imp, rec) (x # xs) = categorize p thr (idx + 1) (imp, rec @ [x]) xs"
      using True by (simp only: categorize_step if_True)
    also have "\<dots> = (imp @ filter (is_important p) (take 0 xs), (rec @ [x]) @ drop 0 xs)"
      by (simp only: Cons.IH z)
    finally show ?thesis by (simp add: z)
  next
    case False
    then have s: "nat (thr - idx) = Suc (nat (thr - (idx + 1)))" by simp
    let ?k = "nat (thr - (idx + 1))"
    show ?thesis
    proof (cases "is_important p x")
      case True
      have "categorize p thr idx (imp, rec) (x # xs) = categorize p thr (idx + 1) (imp @ [x], rec) xs"
        using False True by (simp only: categorize_step if_True if_False)
      also have "\<dots> = ((imp @ [x]) @ filter (is_important p) (take ?k xs), rec @ drop ?k xs)"
        by (simp only: Cons.IH)
      finally show ?thesis using True by (simp add: s)
    next
      case F2: False
      have "categorize p thr idx (imp, rec) (x # xs) = categorize p thr (idx + 1) (imp, rec) xs"
        using False F2 by (simp only: categorize_step if_False)
      also have "\<dots> = (imp @ filter (is_important p) (take ?k xs), rec @ drop ?k xs)"
        by (simp only: Cons.IH)
      finally show ?thesis using F2 by (simp add: s)
    qed
  qed
qed

lemma important_messages_eq:
  "important_messages C p =
     filter (is_important p) (take (nat (recent_threshold C - 1)) (tl C))"
  by (simp add: important_messages_def categorize_eq drop_Suc)

lemma recent_messages_eq:
  "recent_messages C p = drop (nat (recent_threshold C - 1)) (tl C)"
  by (simp add: recent_messages_def categorize_eq drop_Suc)

lemma subseq_imp_rec: "subseq (important_messages C p @ recent_messages C p) (tl C)"
proof -
  let ?k = "nat (recent_threshold C - 1)"
  have "subseq (filter (is_important p) (take ?k (tl C)) @ drop ?k (tl C))
               (take ?k (tl C) @ drop ?k (tl C))"
    by (intro list_emb_append_mono subseq_filter_left subseq_order.order_refl)
  then show ?thesis by (simp only: important_messages_eq recent_messages_eq append_take_drop_id)
qed

lemma initial_task_tl: "initial_task C @ tl C = C"
  by (cases C) (simp_all add: initial_task_def)

lemma subseq_truncated:
  "subseq (initial_task C @ important_messages C p @ recent_messages C p) C"
proof -
  have "subseq (initial_task C @ important_messages C p @ recent_messages C p)
          (initial_task C @ tl C)"
    by (intro list_emb_append_mono subseq_imp_rec subseq_order.order_refl)
  then show ?thesis by (simp only: initial_task_tl)
qed

lemma subseq_drop_self: "subseq (drop n xs) xs"
proof -
  have "subseq ([] @ drop n xs) (take n xs @ drop n xs)"
    by (intro list_emb_append_mono subseq_order.order_refl) simp
  then show ?thesis by simp
qed

lemma subseq_py_last: "subseq (py_last k xs) xs"
  by (simp add: py_last_def subseq_drop_self)

lemma subseq_minimal:
  "subseq (initial_task C @ py_last 6 (recent_messages C p)) C"
proof -
  have "subseq (py_last 6 (recent_messages C p)) (recent_messages C p)"
    by (rule subseq_py_last)
  also have "subseq (recent_messages C p) (tl C)"
    by (simp only: recent_messages_eq subseq_drop_self)
  finally have "subseq (initial_task C @ py_last 6 (recent_messages C p))
          (initial_task C @ tl C)"
    by (intro list_emb_append_mono subseq_order.order_refl)
  then show ?thesis by (simp only: initial_task_tl)
qed

lemma count_tokens_subseq:
  "subseq xs ys \<Longrightarrow> count_tokens mgr xs \<le> count_tokens mgr ys"
proof (induction rule: list_emb.induct)
  case (list_emb_Nil ys)
  show ?case using count_tokens_nonneg [of mgr ys] by (simp add: count_tokens_sum)
next
  case (list_emb_Cons xs ys y)
  then show ?case using msg_cost_ge4 [of "encoding mgr" y] by (simp add: count_tokens_sum)
next
  case (list_emb_Cons2 x y xs ys)
  then show ?case by (simp add: count_tokens_sum)
qed

lemmas eval_simps =
  count_tokens_def count_message_def content_truthy_def function_truthy_def get_str_def
  init_manager_def char_encoding_def user_msg_def Let_def

lemma str_nat_0: "str_nat 0 = ''0''"
  by (simp add: str_nat.simps digit_char_def)

lemmas trunc_simps = smart_truncate_def important_messages_def recent_messages_def
  recent_threshold_def initial_task_def py_last_def summary_message_def str_nat_0

lemma smart_truncate_over:
  "available_tokens mgr < count_tokens mgr C \<Longrightarrow>
   smart_truncate mgr C p =
     (if available_tokens mgr
           < count_tokens mgr (initial_task C @ important_messages C p @ recent_messages C p)
      then initial_task C @ [summary_message (length (important_messages C p))]
             @ py_last 6 (recent_messages C p)
      else initial_task C @ important_messages C p @ recent_messages C p)"
  by (simp add: smart_truncate_def Let_def)

lemma py_last_recent: "py_last 6 (recent_messages C p) = py_last 6 (tl C)"
proof -
  have "length C - (7 + nat (max 1 (int (length C) - 8) - 1))
          + nat (max 1 (int (length C) - 8) - 1) = length C - 7"
  proof (cases "9 \<le> length C")
    case True
    then have "max 1 (int (length C) - 8) = int (length C) - 8" by simp
    moreover have "nat (int (length C) - 8 - 1) = length C - 9" by simp
    ultimately show ?thesis using True by simp
  next
    case False
    then have "max 1 (int (length C) - 8) = 1" by simp
    then show ?thesis by simp
  qed
  then show ?thesis
    by (simp add: py_last_def recent_messages_eq recent_threshold_def)
qed

lemma length_py_last: "length (py_last k xs) \<le> k"
  by (simp add: py_last_def)

lemma initial_task_hd: "C \<noteq> [] \<Longrightarrow> initial_task C = [hd C]"
  by (cases C) (simp_all add: initial_task_def)

lemma count_summary_split:
  "count_tokens mgr (xs @ [s] @ ys) = count_tokens mgr (xs @ ys) + count_tokens mgr [s]"
  by (simp add: count_tokens_sum)


lemma smart_truncate_short_over:
  assumes len: "length R \<le> 9" and over: "available_tokens mgr < count_tokens mgr R"
  shows "smart_truncate mgr R p = initial_task R @ [summary_message 0] @ py_last 6 (tl R)"
proof -
  from len have thr: "recent_threshold R = 1" by (simp add: recent_threshold_def)
  have imp: "important_messages R p = []" by (simp add: important_messages_eq thr)
  have rec: "recent_messages R p = tl R" by (simp add: recent_messages_eq thr)
  have T: "initial_task R @ important_messages R p @ recent_messages R p = R"
    by (simp add: imp rec initial_task_tl)
  show ?thesis using over by (simp add: smart_truncate_over T) (simp add: imp rec)
qed

lemma length_initial_task: "length (initial_task C) \<le> 1"
  by (cases C) (simp_all add: initial_task_def)

lemma smart_truncate_fallback_shape:
  assumes "available_tokens mgr < count_tokens mgr (smart_truncate mgr C p)"
  shows "smart_truncate mgr C p
           = initial_task C @ [summary_message (length (important_messages C p))]
               @ py_last 6 (tl C)"
proof (cases "available_tokens mgr < count_tokens mgr C")
  case False
  then have "smart_truncate mgr C p = C" by (simp add: smart_truncate_def)
  with False assms show ?thesis by simp
next
  case True
  then show ?thesis using assms
    by (simp add: smart_truncate_over py_last_recent split: if_splits)
qed

lemma smart_truncate_twice_over_budget:
  assumes "available_tokens mgr < count_tokens mgr (smart_truncate mgr C p)"
  shows "smart_truncate mgr (smart_truncate mgr C p) p
           = initial_task (smart_truncate mgr C p) @ [summary_message 0]
               @ py_last 6 (tl (smart_truncate mgr C p))"
proof -
  let ?R = "smart_truncate mgr C p"
  have R: "?R = initial_task C @ [summary_message (length (important_messages C p))]
                  @ py_last 6 (tl C)"
    using assms by (rule smart_truncate_fallback_shape)
  have "length ?R \<le> 9"
    using length_initial_task [of C] length_py_last [of 6 "tl C"] by (simp add: R)
  then show ?thesis using assms by (rule smart_truncate_short_over)
qed

section \<open>The fast path of smart_truncate\<close>

text \<open>
  C4. A conversation whose token count does not exceed \<open>available_tokens\<close> is returned by
  \<open>smart_truncate\<close> as it is.
\<close>

theorem smart_truncate_fast_path:
  "count_tokens mgr C \<le> available_tokens mgr \<Longrightarrow> smart_truncate mgr C p = C"
  by (simp add: smart_truncate_def)

theorem smart_truncate_fast_path_witness:
  "count_tokens mgr600 conv3 \<le> available_tokens mgr600
   \<and> smart_truncate mgr600 conv3 True = conv3"
proof -
  have h: "count_tokens mgr600 conv3 \<le> available_tokens mgr600"
    by (simp add: mgr600_def conv3_def eval_simps)
  from h smart_truncate_fast_path [OF h, of True] show ?thesis by simp
qed

section \<open>Monotonicity of count_tokens\<close>

text \<open>
  C7. \<open>count_tokens\<close> is a function of the tokenizer and the conversation alone; appending a
  message (empty or not) strictly increases the count, by at least the role overhead of 4; and
  the count is never negative.
\<close>

theorem count_tokens_strictly_monotone:
  "count_tokens mgr C < count_tokens mgr (C @ [m]) \<and> 0 \<le> count_tokens mgr C"
proof -
  have "count_tokens mgr (C @ [m]) = count_tokens mgr C + msg_cost (encoding mgr) m"
    by (simp add: count_tokens_sum)
  moreover have "4 \<le> msg_cost (encoding mgr) m" by (rule msg_cost_ge4)
  ultimately show ?thesis using count_tokens_nonneg [of mgr C] by simp
qed

theorem count_tokens_strictly_monotone_witness:
  "count_tokens mgr600 conv3 < count_tokens mgr600 (conv3 @ [user_msg ''x''])
   \<and> 0 \<le> count_tokens mgr600 conv3"
  using count_tokens_strictly_monotone [of mgr600 conv3 "user_msg ''x''"] by simp

section \<open>What smart_truncate retains\<close>

text \<open>
  C9. Apart from the one synthetic system message, the result of \<open>smart_truncate\<close> consists of
  messages of the input in their original order: the result, or the result with the summary
  taken out, is a subsequence of the input. When the input is not empty and over budget, the
  result starts with the first message of the input.
\<close>

theorem smart_truncate_retains_order:
  "(subseq (smart_truncate mgr C p) C
    \<or> (\<exists>n pre post. smart_truncate mgr C p = pre @ [summary_message n] @ post
          \<and> subseq (pre @ post) C))
   \<and> (C \<noteq> [] \<and> available_tokens mgr < count_tokens mgr C
        \<longrightarrow> (\<exists>rest. smart_truncate mgr C p = hd C # rest))"
proof (cases "available_tokens mgr < count_tokens mgr C")
  case False
  then have "smart_truncate mgr C p = C" by (simp add: smart_truncate_def)
  with False show ?thesis by simp
next
  case over: True
  let ?T = "initial_task C @ important_messages C p @ recent_messages C p"
  show ?thesis
  proof (cases "available_tokens mgr < count_tokens mgr ?T")
    case True
    then have R: "smart_truncate mgr C p =
        initial_task C @ [summary_message (length (important_messages C p))]
          @ py_last 6 (recent_messages C p)"
      using over by (simp add: smart_truncate_over)
    have "subseq (initial_task C @ py_last 6 (recent_messages C p)) C" by (rule subseq_minimal)
    with R have "\<exists>n pre post. smart_truncate mgr C p = pre @ [summary_message n] @ post
          \<and> subseq (pre @ post) C" by blast
    moreover have "C \<noteq> [] \<longrightarrow> (\<exists>rest. smart_truncate mgr C p = hd C # rest)"
      using R by (simp add: initial_task_hd)
    ultimately show ?thesis by blast
  next
    case False
    then have R: "smart_truncate mgr C p = ?T" using over by (simp add: smart_truncate_over)
    have "subseq (smart_truncate mgr C p) C" unfolding R by (rule subseq_truncated)
    moreover have "C \<noteq> [] \<longrightarrow> (\<exists>rest. smart_truncate mgr C p = hd C # rest)"
      using R by (simp add: initial_task_hd)
    ultimately show ?thesis by blast
  qed
qed


theorem smart_truncate_retains_order_witness:
  "conv_long \<noteq> [] \<and> available_tokens mgr46 < count_tokens mgr46 conv_long
   \<and> (\<exists>rest. smart_truncate mgr46 conv_long True = hd conv_long # rest)"
proof -
  have h: "conv_long \<noteq> [] \<and> available_tokens mgr46 < count_tokens mgr46 conv_long"
    by (simp add: mgr46_def conv_long_def eval_simps)
  with smart_truncate_retains_order [of mgr46 conv_long True] show ?thesis by blast
qed

section \<open>The size of the result\<close>

text \<open>
  C5 (as amended). Either the result fits \<open>available_tokens\<close>, and then it costs no more than
  the input; or the result is the minimal guarantee (the first message, one summary message, the
  last at most 6 messages after the first), which costs at most the input plus the summary.
\<close>

theorem smart_truncate_ceiling_or_minimal:
  "(count_tokens mgr (smart_truncate mgr C p) \<le> available_tokens mgr
      \<and> count_tokens mgr (smart_truncate mgr C p) \<le> count_tokens mgr C)
   \<or> (\<exists>n. smart_truncate mgr C p = initial_task C @ [summary_message n] @ py_last 6 (tl C)
          \<and> length (py_last 6 (tl C)) \<le> 6
          \<and> count_tokens mgr (smart_truncate mgr C p)
               \<le> count_tokens mgr C + count_tokens mgr [summary_message n])"
proof (cases "available_tokens mgr < count_tokens mgr C")
  case False
  then have "smart_truncate mgr C p = C" by (simp add: smart_truncate_def)
  with False show ?thesis by simp
next
  case over: True
  let ?T = "initial_task C @ important_messages C p @ recent_messages C p"
  show ?thesis
  proof (cases "available_tokens mgr < count_tokens mgr ?T")
    case True
    let ?n = "length (important_messages C p)"
    have R: "smart_truncate mgr C p = initial_task C @ [summary_message ?n] @ py_last 6 (tl C)"
      using over True by (simp add: smart_truncate_over py_last_recent)
    have "count_tokens mgr (initial_task C @ py_last 6 (tl C)) \<le> count_tokens mgr C"
      using subseq_minimal [of C p] by (simp only: py_last_recent count_tokens_subseq)
    then have "count_tokens mgr (smart_truncate mgr C p)
               \<le> count_tokens mgr C + count_tokens mgr [summary_message ?n]"
      by (simp only: R count_summary_split)
    with R length_py_last [of 6 "tl C"] show ?thesis by blast
  next
    case False
    then have R: "smart_truncate mgr C p = ?T" using over by (simp add: smart_truncate_over)
    have "count_tokens mgr ?T \<le> count_tokens mgr C"
      by (rule count_tokens_subseq) (rule subseq_truncated)
    with False R show ?thesis by simp
  qed
qed

theorem smart_truncate_ceiling_or_minimal_witness:
  "(count_tokens mgr46 (smart_truncate mgr46 conv10 True) \<le> available_tokens mgr46
      \<and> count_tokens mgr46 (smart_truncate mgr46 conv10 True) \<le> count_tokens mgr46 conv10)
   \<or> (\<exists>n. smart_truncate mgr46 conv10 True
               = initial_task conv10 @ [summary_message n] @ py_last 6 (tl conv10)
          \<and> length (py_last 6 (tl conv10)) \<le> 6
          \<and> count_tokens mgr46 (smart_truncate mgr46 conv10 True)
               \<le> count_tokens mgr46 conv10 + count_tokens mgr46 [summary_message n])"
  by (rule smart_truncate_ceiling_or_minimal)

text \<open>
  The claim as first stated also says that the result never costs more than the input. Three
  messages that exceed the budget together are all retained, and the summary is added to them.
\<close>

theorem smart_truncate_can_grow:
  "\<not> count_tokens mgr46 (smart_truncate mgr46 conv_long True) \<le> count_tokens mgr46 conv_long"
  by (simp add: mgr46_def conv_long_def trunc_simps eval_simps)

section \<open>The summary message\<close>

text \<open>
  C2 (as amended). For a conversation over budget, \<open>smart_truncate\<close> first selects the first
  message, the important middle messages and the recent tail. When this selection fits the
  budget it is the result: the other middle messages are left out and no summary is added.
  Only when the selection is still over budget does the result hold a summary: the first
  message, one synthetic system message stating a number of removed messages, and the last at
  most 6 recent messages.
\<close>

theorem smart_truncate_marker_only_in_fallback:
  "available_tokens mgr < count_tokens mgr C \<Longrightarrow>
     (smart_truncate mgr C p = initial_task C @ important_messages C p @ recent_messages C p
        \<and> count_tokens mgr (smart_truncate mgr C p) \<le> available_tokens mgr
        \<and> subseq (smart_truncate mgr C p) C)
   \<or> (available_tokens mgr
          < count_tokens mgr (initial_task C @ important_messages C p @ recent_messages C p)
        \<and> (\<exists>n. smart_truncate mgr C p
                   = initial_task C @ [summary_message n] @ py_last 6 (recent_messages C p)
               \<and> role (summary_message n) = ''system''
               \<and> content (summary_message n)
                   = Some (''[Context optimized: '' @ str_nat n
                            @ '' intermediate messages removed]'')))"
proof -
  assume over: "available_tokens mgr < count_tokens mgr C"
  let ?T = "initial_task C @ important_messages C p @ recent_messages C p"
  show ?thesis
  proof (cases "available_tokens mgr < count_tokens mgr ?T")
    case True
    then have "smart_truncate mgr C p =
        initial_task C @ [summary_message (length (important_messages C p))]
          @ py_last 6 (recent_messages C p)"
      using over by (simp add: smart_truncate_over)
    moreover have "role (summary_message (length (important_messages C p))) = ''system''"
      by (simp add: summary_message_def)
    moreover have "content (summary_message (length (important_messages C p)))
        = Some (''[Context optimized: '' @ str_nat (length (important_messages C p))
                 @ '' intermediate messages removed]'')"
      by (simp add: summary_message_def)
    ultimately show ?thesis using True by blast
  next
    case False
    then have R: "smart_truncate mgr C p = ?T" using over by (simp add: smart_truncate_over)
    have "subseq (smart_truncate mgr C p) C" unfolding R by (rule subseq_truncated)
    with False R show ?thesis by simp
  qed
qed

theorem smart_truncate_marker_only_in_fallback_witness:
  "available_tokens mgr46 < count_tokens mgr46 conv10
   \<and> smart_truncate mgr46 conv10 True
        = initial_task conv10 @ important_messages conv10 True @ recent_messages conv10 True
   \<and> subseq (smart_truncate mgr46 conv10 True) conv10"
proof -
  have h: "available_tokens mgr46 < count_tokens mgr46 conv10"
    by (simp add: mgr46_def conv10_def eval_simps)
  have fits: "\<not> available_tokens mgr46
      < count_tokens mgr46 (initial_task conv10 @ important_messages conv10 True
                              @ recent_messages conv10 True)"
    by (simp add: mgr46_def conv10_def trunc_simps eval_simps)
  from smart_truncate_marker_only_in_fallback [OF h, of True] fits h show ?thesis by blast
qed

text \<open>
  The claim as first stated asks for a summary whenever messages are left out. Ten short
  messages just over the budget: the second one is dropped and nothing is put in its place.
\<close>

theorem smart_truncate_silent_drop:
  "available_tokens mgr46 < count_tokens mgr46 conv10
   \<and> length (smart_truncate mgr46 conv10 True) < length conv10
   \<and> smart_truncate mgr46 conv10 True
        = [user_msg ''a'', user_msg ''c'', user_msg ''d'', user_msg ''e'', user_msg ''f'',
           user_msg ''g'', user_msg ''h'', user_msg ''i'', user_msg ''j'']"
  by (simp add: mgr46_def conv10_def trunc_simps eval_simps)

section \<open>Applying smart_truncate twice\<close>

text \<open>
  C6 (as amended). When the result of \<open>smart_truncate\<close> fits the budget, applying
  \<open>smart_truncate\<close> to it again changes nothing.
\<close>

theorem smart_truncate_idempotent_when_fits:
  "count_tokens mgr (smart_truncate mgr C p) \<le> available_tokens mgr \<Longrightarrow>
   smart_truncate mgr (smart_truncate mgr C p) p = smart_truncate mgr C p"
  by (simp add: smart_truncate_def [of mgr "smart_truncate mgr C p"])

theorem smart_truncate_idempotent_when_fits_witness:
  "count_tokens mgr46 (smart_truncate mgr46 conv10 True) \<le> available_tokens mgr46
   \<and> smart_truncate mgr46 (smart_truncate mgr46 conv10 True) True
        = smart_truncate mgr46 conv10 True"
proof -
  have h: "count_tokens mgr46 (smart_truncate mgr46 conv10 True) \<le> available_tokens mgr46"
    by (simp add: mgr46_def conv10_def trunc_simps eval_simps)
  from h smart_truncate_idempotent_when_fits [OF h] show ?thesis by simp
qed

text \<open>
  The claim as first stated holds for every conversation. When the minimal guarantee is still
  over budget, a second pass puts another summary after the first message
  (lemma \<open>smart_truncate_twice_over_budget\<close>), so the two results differ.
\<close>

theorem smart_truncate_not_idempotent:
  "smart_truncate mgr46 (smart_truncate mgr46 conv_long True) True
     \<noteq> smart_truncate mgr46 conv_long True"
  by (simp add: mgr46_def conv_long_def trunc_simps eval_simps)

section \<open>Trimming does not touch the stored conversation\<close>

lemma length_list_append [simp]: "length (list_append s a m) = length s"
  by (simp add: list_append_def)

lemma take_list_append: "n \<le> a \<Longrightarrow> take n (list_append s a m) = take n s"
  by (simp add: list_append_def)

lemma nth_list_append:
  "a < length s \<Longrightarrow> list_append s a m ! b = (if b = a then s ! a @ [m] else s ! b)"
  by (simp add: list_append_def)

lemma length_categorize_st [simp]:
  "length (categorize_st p thr idx ia ra s xs) = length s"
  by (induction xs arbitrary: idx s) simp_all

lemma take_categorize_st:
  "n \<le> ia \<Longrightarrow> n \<le> ra \<Longrightarrow> take n (categorize_st p thr idx ia ra s xs) = take n s"
  by (induction xs arbitrary: idx s) (simp_all add: take_list_append)

lemma categorize_st_other:
  "ia < length s \<Longrightarrow> ra < length s \<Longrightarrow> b \<noteq> ia \<Longrightarrow> b \<noteq> ra \<Longrightarrow>
   categorize_st p thr idx ia ra s xs ! b = s ! b"
  by (induction xs arbitrary: idx s) (simp_all add: nth_list_append)

lemma categorize_st_value:
  "ia < length s \<Longrightarrow> ra < length s \<Longrightarrow> ia \<noteq> ra \<Longrightarrow>
   (categorize_st p thr idx ia ra s xs ! ia, categorize_st p thr idx ia ra s xs ! ra)
     = categorize p thr idx (s ! ia, s ! ra) xs"
proof (induction xs arbitrary: idx s)
  case Nil
  show ?case by simp
next
  case (Cons x xs)
  let ?s' = "(if thr \<le> idx then list_append s ra x
        else if p \<and> role x = ''tool'' then list_append s ia x
        else if tool_calls x \<noteq> [] then
          (if has_important_tool x then list_append s ia x else s)
        else s)"
  have len: "ia < length ?s'" "ra < length ?s'" using Cons.prems by simp_all
  have "(categorize_st p thr idx ia ra s (x # xs) ! ia, categorize_st p thr idx ia ra s (x # xs) ! ra)
     = (categorize_st p thr (idx + 1) ia ra ?s' xs ! ia, categorize_st p thr (idx + 1) ia ra ?s' xs ! ra)"
    by simp
  also have "\<dots> = categorize p thr (idx + 1) (?s' ! ia, ?s' ! ra) xs"
    using len Cons.prems(3) by (rule Cons.IH)
  also have "\<dots> = categorize p thr idx (s ! ia, s ! ra) (x # xs)"
    using Cons.prems by (simp add: nth_list_append)
  finally show ?case .
qed

lemma length_after_loop: "length (after_loop s c p) = length s + 4"
  by (simp add: after_loop_def)

lemma take_after_loop: "take (length s) (after_loop s c p) = s"
  by (simp add: after_loop_def take_categorize_st)

lemma after_loop_initial: "after_loop s c p ! length s = initial_task (s ! c)"
  by (simp add: after_loop_def categorize_st_other nth_append)

lemma after_loop_lists:
  "(after_loop s c p ! (length s + 1), after_loop s c p ! (length s + 2))
     = (important_messages (s ! c) p, recent_messages (s ! c) p)"
proof -
  let ?s4 = "s @ [initial_task (s ! c), [], [], drop 1 (s ! c)]"
  have "(after_loop s c p ! (length s + 1), after_loop s c p ! (length s + 2))
      = categorize p (recent_threshold (s ! c)) 1 (?s4 ! (length s + 1), ?s4 ! (length s + 2))
          (drop 1 (s ! c))"
    unfolding after_loop_def by (rule categorize_st_value) simp_all
  also have "?s4 ! (length s + 1) = []" by (simp add: nth_append)
  also have "?s4 ! (length s + 2) = []" by (simp add: nth_append)
  finally show ?thesis
    by (simp add: important_messages_def recent_messages_def)
qed

lemma after_loop_important: "after_loop s c p ! (length s + 1) = important_messages (s ! c) p"
  using after_loop_lists [of s c p] by simp

lemma after_loop_recent: "after_loop s c p ! (length s + 2) = recent_messages (s ! c) p"
  using after_loop_lists [of s c p] by simp

lemma smart_truncate_st_fast:
  "count_tokens mgr (s ! c) \<le> available_tokens mgr \<Longrightarrow> smart_truncate_st mgr s c p = (s, c)"
  by (simp add: smart_truncate_st_def)

lemma smart_truncate_st_over:
  assumes c: "c < length s" and over: "available_tokens mgr < count_tokens mgr (s ! c)"
  shows "smart_truncate_st mgr s c p =
     (let s5 = after_loop s c p;
          initial = initial_task (s ! c);
          imp = important_messages (s ! c) p;
          rec = recent_messages (s ! c) p;
          s7 = s5 @ [initial @ imp, (initial @ imp) @ rec]
      in if available_tokens mgr < count_tokens mgr ((initial @ imp) @ rec)
         then (s7 @ [[summary_message (length imp)], initial @ [summary_message (length imp)],
                     py_last 6 rec,
                     (initial @ [summary_message (length imp)]) @ py_last 6 rec],
               length s + 9)
         else (s7, length s + 5))"
proof -
  note vals = after_loop_initial [of s c p, unfolded after_loop_def, simplified]
    after_loop_important [of s c p, unfolded after_loop_def, simplified]
    after_loop_recent [of s c p, unfolded after_loop_def, simplified]
  show ?thesis
    using c over
    by (simp add: smart_truncate_st_def new_list_def Let_def nth_append after_loop_def vals)
qed


lemma smart_truncate_st_correct:
  assumes c: "c < length s"
  shows "take (length s) (fst (smart_truncate_st mgr s c p)) = s
     \<and> snd (smart_truncate_st mgr s c p) < length (fst (smart_truncate_st mgr s c p))
     \<and> fst (smart_truncate_st mgr s c p) ! snd (smart_truncate_st mgr s c p)
          = smart_truncate mgr (s ! c) p
     \<and> (available_tokens mgr < count_tokens mgr (s ! c)
          \<longrightarrow> length s \<le> snd (smart_truncate_st mgr s c p))
     \<and> (count_tokens mgr (s ! c) \<le> available_tokens mgr
          \<longrightarrow> snd (smart_truncate_st mgr s c p) = c)"
proof (cases "available_tokens mgr < count_tokens mgr (s ! c)")
  case False
  then have "smart_truncate_st mgr s c p = (s, c)" by (simp add: smart_truncate_st_fast)
  moreover have "smart_truncate mgr (s ! c) p = s ! c" using False by (simp add: smart_truncate_def)
  ultimately show ?thesis using c False by simp
next
  case True
  have tk: "take (length s) (after_loop s c p @ xs) = s" for xs
    using take_after_loop [of s c p] length_after_loop [of s c p] by simp
  show ?thesis
    using True
    by (simp add: smart_truncate_st_over [OF c True] smart_truncate_over Let_def
        length_after_loop nth_append tk take_after_loop)
qed

text \<open>
  C8 (as amended). Neither \<open>smart_truncate\<close> nor \<open>_prepare_context\<close> changes a list object that
  existed before the call, the conversation among them, and \<open>_prepare_context\<close> leaves
  \<open>self.conversation\<close> pointing where it did. What \<open>smart_truncate\<close> returns for a conversation
  over budget is a new list object; for a conversation within budget it is the stored
  conversation object itself. The context that \<open>_prepare_context\<close> returns is a new list object
  in both cases. The contents are those of the functional \<open>smart_truncate\<close>.
\<close>

theorem trimming_is_non_destructive:
  assumes c: "conversation_ref self < length s"
  shows "(case smart_truncate_st mgr s (conversation_ref self) p of
            (s', r) \<Rightarrow> take (length s) s' = s
                      \<and> s' ! conversation_ref self = s ! conversation_ref self
                      \<and> s' ! r = smart_truncate mgr (s ! conversation_ref self) p
                      \<and> (available_tokens mgr < count_tokens mgr (s ! conversation_ref self)
                            \<longrightarrow> length s \<le> r)
                      \<and> (count_tokens mgr (s ! conversation_ref self) \<le> available_tokens mgr
                            \<longrightarrow> r = conversation_ref self))
       \<and> (case prepare_context mgr sp s self of
            (s', self', r) \<Rightarrow> take (length s) s' = s
                      \<and> s' ! conversation_ref self = s ! conversation_ref self
                      \<and> conversation_ref self' = conversation_ref self
                      \<and> length s \<le> r
                      \<and> s' ! r = system_msg sp # smart_truncate mgr (s ! conversation_ref self) True)"
proof -
  have nth_take: "s' ! conversation_ref self = s ! conversation_ref self" if "take (length s) s' = s" for s'
  proof -
    have "take (length s) s' ! conversation_ref self = s' ! conversation_ref self"
      using c by simp
    with that show ?thesis by simp
  qed
  obtain s1 r1 where st: "smart_truncate_st mgr s (conversation_ref self) p = (s1, r1)"
    by (cases "smart_truncate_st mgr s (conversation_ref self) p")
  from smart_truncate_st_correct [OF c, of mgr p] st
  have A: "take (length s) s1 = s" "s1 ! r1 = smart_truncate mgr (s ! conversation_ref self) p"
    "available_tokens mgr < count_tokens mgr (s ! conversation_ref self) \<longrightarrow> length s \<le> r1"
    "count_tokens mgr (s ! conversation_ref self) \<le> available_tokens mgr
       \<longrightarrow> r1 = conversation_ref self"
    by simp_all
  obtain s2 r2 where st2: "smart_truncate_st mgr s (conversation_ref self) True = (s2, r2)"
    by (cases "smart_truncate_st mgr s (conversation_ref self) True")
  from smart_truncate_st_correct [OF c, of mgr True] st2
  have B: "take (length s) s2 = s" "r2 < length s2"
    "s2 ! r2 = smart_truncate mgr (s ! conversation_ref self) True"
    by simp_all
  have len: "length s \<le> length s2"
  proof -
    have "length (take (length s) s2) = length s" by (simp add: B(1))
    then show ?thesis by simp
  qed
  let ?s3 = "list_extend (s2 @ [[system_msg sp]]) (length s2) r2"
  have pc: "prepare_context mgr sp s self = (?s3, self, length s2)"
    by (simp add: prepare_context_def st2 new_list_def)
  have s3: "?s3 = s2 @ [system_msg sp # s2 ! r2]"
    using B(2) by (simp add: list_extend_def nth_append)
  have C1: "take (length s) ?s3 = s" using len B(1) by (simp add: s3)
  have C2: "?s3 ! length s2 = system_msg sp # smart_truncate mgr (s ! conversation_ref self) True"
    by (simp add: s3 B(3))
  show ?thesis
    unfolding st pc using A nth_take [OF A(1)] C1 nth_take [OF C1] C2 len by simp
qed

theorem trimming_is_non_destructive_witness:
  "conversation_ref \<lparr> conversation_ref = 0 \<rparr> < length [conv10]
   \<and> available_tokens mgr46 < count_tokens mgr46 ([conv10] ! 0)
   \<and> (case smart_truncate_st mgr46 [conv10] 0 True of
        (s', r) \<Rightarrow> s' ! 0 = conv10 \<and> 1 \<le> r)
   \<and> (case prepare_context mgr46 ''You are a research agent'' [conv10] \<lparr> conversation_ref = 0 \<rparr> of
        (s', self', r) \<Rightarrow> s' ! 0 = conv10 \<and> conversation_ref self' = 0 \<and> 1 \<le> r)"
proof -
  have h: "conversation_ref \<lparr> conversation_ref = 0 \<rparr> < length [conv10]" by simp
  have over: "available_tokens mgr46 < count_tokens mgr46 ([conv10] ! 0)"
    by (simp add: mgr46_def conv10_def eval_simps)
  from trimming_is_non_destructive [OF h, of mgr46 True "''You are a research agent''"] over
  show ?thesis by (simp add: split_def)
qed

text \<open>
  The claim as first stated calls the list that \<open>smart_truncate\<close> returns freshly built for
  every conversation. For a conversation within budget the store is left as it is and the
  reference returned is the one that was passed in: the stored conversation itself.
\<close>

theorem smart_truncate_returns_stored_list:
  "smart_truncate_st mgr600 [conv3] 0 True = ([conv3], 0)
   \<and> \<not> length [conv3] \<le> snd (smart_truncate_st mgr600 [conv3] 0 True)"
  by (simp add: smart_truncate_st_def mgr600_def conv3_def eval_simps)

section \<open>ReadFileTool always returns a string\<close>

text \<open>
  C10. For every path and every behaviour of the file system, \<open>ReadFileTool.__call__\<close> returns
  a string and lets no exception out: the content that was read, or a string that begins
  with \<open>Error:\<close> (path missing, not a regular file, permission denied, any other exception).
\<close>

theorem read_file_call_total:
  "\<exists>s. read_file_call os file_path = Inr s
       \<and> ((path_exists os file_path = Inr True \<and> path_isfile os file_path = Inr True
             \<and> open_read os file_path = Inr s)
            \<or> prefix ''Error:'' s)"
proof (cases "read_file_try os file_path")
  case (Inl e)
  then show ?thesis by (cases e) (simp_all add: read_file_call_def)
next
  case (Inr s)
  then have "read_file_call os file_path = Inr s" by (simp add: read_file_call_def)
  moreover from Inr have "(path_exists os file_path = Inr True \<and> path_isfile os file_path = Inr True
             \<and> open_read os file_path = Inr s) \<or> prefix ''Error:'' s"
    by (auto simp add: read_file_try_def split: sum.splits if_splits)
  ultimately show ?thesis by blast
qed

lemma read_file_call_cases:
  "read_file_call os fp =
     Inr (case path_exists os fp of
            Inl PermissionError \<Rightarrow> ''Error: Permission denied accessing '' @ fp
          | Inl (OtherException e) \<Rightarrow> ''Error: '' @ e
          | Inr False \<Rightarrow> ''Error: File '' @ fp @ '' does not exist''
          | Inr True \<Rightarrow>
             (case path_isfile os fp of
                Inl PermissionError \<Rightarrow> ''Error: Permission denied accessing '' @ fp
              | Inl (OtherException e) \<Rightarrow> ''Error: '' @ e
              | Inr False \<Rightarrow> ''Error: '' @ fp @ '' is not a file''
              | Inr True \<Rightarrow>
                 (case open_read os fp of
                    Inl PermissionError \<Rightarrow> ''Error: Permission denied accessing '' @ fp
                  | Inl (OtherException e) \<Rightarrow> ''Error: '' @ e
                  | Inr s \<Rightarrow> s)))"
  by (simp add: read_file_call_def read_file_try_def split: sum.splits py_exception.splits bool.splits)

theorem read_file_call_total_witness:
  "read_file_call demo_os ''notes.txt'' = Inr ''remember the milk''
   \<and> read_file_call demo_os ''secret.txt'' = Inr ''Error: Permission denied accessing secret.txt''
   \<and> (\<exists>s. read_file_call demo_os ''data'' = Inr s \<and> prefix ''Error:'' s)"
proof -
  have a: "read_file_call demo_os ''notes.txt'' = Inr ''remember the milk''"
    by (simp add: read_file_call_def read_file_try_def demo_os_def)
  have b: "read_file_call demo_os ''secret.txt''
             = Inr ''Error: Permission denied accessing secret.txt''"
    by (simp add: read_file_call_def read_file_try_def demo_os_def)
  have c: "path_isfile demo_os ''data'' \<noteq> Inr True" by (simp add: demo_os_def)
  from read_file_call_total [of demo_os "''data''"] c
  have "\<exists>s. read_file_call demo_os ''data'' = Inr s \<and> prefix ''Error:'' s" by blast
  with a b show ?thesis by blast
qed

section \<open>The stop phrase and the resume signal\<close>

lemma ascii_methods_stop: "str_strip ascii_methods (str_lower ascii_methods ''stop'') = ''stop''"
  by (simp add: ascii_methods_def ascii_strip_def ascii_lower_def ascii_lower_char_def
      upper_letters_def lower_letters_def is_ascii_space_def ascii_whitespace_def)

lemma ascii_methods_padded_stop:
  "str_strip ascii_methods (str_lower ascii_methods '' Stop '') = ''stop''"
  by (simp add: ascii_methods_def ascii_strip_def ascii_lower_def ascii_lower_char_def
      upper_letters_def lower_letters_def is_ascii_space_def ascii_whitespace_def)

lemma stop_is_stop_phrase: "List.member stop_phrases ''stop''"
  by (simp add: stop_phrases_def)

lemma continue_conversation_stop:
  "List.member stop_phrases (str_strip py (str_lower py user_message)) \<Longrightarrow>
   state (continue_conversation py self user_message) = COMPLETED
   \<and> user_requested_stop (continue_conversation py self user_message)
   \<and> clarification_received (continue_conversation py self user_message)
        = clarification_received self"
  by (simp add: continue_conversation_def)

lemma stop_does_not_release:
  assumes "stream request"
    and "extract_user_content_from_messages (messages request) = Inr user_message"
    and "List.member stop_phrases (str_strip py (str_lower py user_message))"
  shows "\<exists>agent'. create_chat_completion_infinite py request agent = Inr agent'
           \<and> state agent' = COMPLETED \<and> user_requested_stop agent'
           \<and> clarification_received agent' = clarification_received agent"
  using assms by (simp add: create_chat_completion_infinite_def continue_conversation_def)

lemma waiting_stays_blocked:
  "\<not> clarification_received self \<Longrightarrow> (execute_step ph ^^ n) (Waiting, self) = (Waiting, self)"
  by (induction n) (simp_all add: execute_step_def)

text \<open>
  C1. The claim: the stop phrase sets \<open>COMPLETED\<close> and releases the resume signal, so that a
  suspended loop exits. The code at the failing input: an agent suspended in
  \<open>clarification_received.wait()\<close> receives \<open>stop\<close> through the continuation endpoint. The state
  becomes \<open>COMPLETED\<close> and the stop is recorded, but the endpoint sets the event only when no
  stop was requested: the flag stays cleared, the loop stays suspended, and the stream is
  never finished. This holds for all string methods that leave the word \<open>stop\<close> as it is, as
  Python's do. (Lemmas \<open>stop_does_not_release\<close> and \<open>waiting_stays_blocked\<close> give the same for
  every stop phrase and any number of steps.)
\<close>

theorem stop_phrase_leaves_loop_suspended:
  assumes "str_strip py (str_lower py ''stop'') = ''stop''"
  shows "create_chat_completion_infinite py stop_request paused_agent
     = Inr (paused_agent\<lparr> user_requested_stop := True, state := COMPLETED,
              conversation := conversation paused_agent
                @ [user_msg ''User requested to stop the conversation.''] \<rparr>)
   \<and> \<not> clarification_received (projr (create_chat_completion_infinite py stop_request paused_agent))
   \<and> execute_step demo_phases
         (Waiting, projr (create_chat_completion_infinite py stop_request paused_agent))
       = (Waiting, projr (create_chat_completion_infinite py stop_request paused_agent))
   \<and> \<not> stream_finished (projr (create_chat_completion_infinite py stop_request paused_agent))"
proof -
  have r: "create_chat_completion_infinite py stop_request paused_agent
     = Inr (paused_agent\<lparr> user_requested_stop := True, state := COMPLETED,
              conversation := conversation paused_agent
                @ [user_msg ''User requested to stop the conversation.''] \<rparr>)"
    using stop_is_stop_phrase assms
    by (simp add: create_chat_completion_infinite_def stop_request_def
        extract_user_content_from_messages_def continue_conversation_def)
  show ?thesis
    unfolding r by (simp add: execute_step_def paused_agent_def)
qed

theorem stop_phrase_leaves_loop_suspended_witness:
  "str_strip ascii_methods (str_lower ascii_methods ''stop'') = ''stop''
   \<and> create_chat_completion_infinite ascii_methods stop_request paused_agent
     = Inr (paused_agent\<lparr> user_requested_stop := True, state := COMPLETED,
              conversation := conversation paused_agent
                @ [user_msg ''User requested to stop the conversation.''] \<rparr>)
   \<and> \<not> clarification_received
         (projr (create_chat_completion_infinite ascii_methods stop_request paused_agent))
   \<and> execute_step demo_phases
         (Waiting, projr (create_chat_completion_infinite ascii_methods stop_request paused_agent))
       = (Waiting, projr (create_chat_completion_infinite ascii_methods stop_request paused_agent))
   \<and> \<not> stream_finished
         (projr (create_chat_completion_infinite ascii_methods stop_request paused_agent))"
proof -
  have h: "str_strip ascii_methods (str_lower ascii_methods ''stop'') = ''stop''"
    by (rule ascii_methods_stop)
  from h stop_phrase_leaves_loop_suspended [OF h] show ?thesis by blast
qed

section \<open>An answer does not complete the agent\<close>

text \<open>
  C3. When a pass of the loop selects the answer-producing tool and completes, and no stop has
  been recorded when the pass ends, the agent is left in \<open>WAITING_FOR_CLARIFICATION\<close>, not in
  \<open>COMPLETED\<close>, with the event cleared and the loop suspended on it, whatever the inherited
  phases did to the state. (A pass that raises ends in \<open>FAILED\<close>: lemma
  \<open>execute_step_exception\<close>.)
\<close>

theorem final_answer_without_stop_waits:
  assumes "loop_body ph self = (self', Inr (pt, FinalAnswerTool status))"
    and "\<not> user_requested_stop self'"
  shows "state self' = WAITING_FOR_CLARIFICATION \<and> state self' \<noteq> COMPLETED
         \<and> pt = Waiting \<and> \<not> clarification_received self'"
  using assms
  by (auto simp add: loop_body_def Let_def is_final_answer_def
      split: prod.splits sum.splits if_splits)

lemma execute_step_exception:
  "\<not> user_requested_stop self \<Longrightarrow> loop_body ph self = (self', Inl e) \<Longrightarrow>
   execute_step ph (LoopTest, self) = (Done, finally_block (self'\<lparr> state := FAILED \<rparr>))"
  by (simp add: execute_step_def)

lemma execute_step_final_answer:
  "\<not> user_requested_stop self \<Longrightarrow> loop_body ph self = (self', Inr (pt, tool)) \<Longrightarrow>
   execute_step ph (LoopTest, self) = (pt, self')"
  by (simp add: execute_step_def)

theorem final_answer_without_stop_waits_witness:
  "loop_body demo_phases running_agent
     = (running_agent\<lparr> iteration := 2, current_step_reasoning := Some ''the answer is ready'',
          state := WAITING_FOR_CLARIFICATION, clarification_received := False \<rparr>,
        Inr (Waiting, FinalAnswerTool COMPLETED))
   \<and> \<not> user_requested_stop
         (running_agent\<lparr> iteration := 2, current_step_reasoning := Some ''the answer is ready'',
          state := WAITING_FOR_CLARIFICATION, clarification_received := False \<rparr>)
   \<and> state (fst (loop_body demo_phases running_agent)) = WAITING_FOR_CLARIFICATION"
proof -
  let ?a = "running_agent\<lparr> iteration := 2, current_step_reasoning := Some ''the answer is ready'',
          state := WAITING_FOR_CLARIFICATION, clarification_received := False \<rparr>"
  have b: "loop_body demo_phases running_agent = (?a, Inr (Waiting, FinalAnswerTool COMPLETED))"
    by (simp add: loop_body_def select_action_phase_def demo_phases_def running_agent_def
        paused_agent_def is_final_answer_def Let_def)
  have s: "\<not> user_requested_stop ?a" by (simp add: running_agent_def paused_agent_def)
  from final_answer_without_stop_waits [OF b s] b s show ?thesis by simp
qed

end
